theory Spec2Isabelle
  imports Main
begin

section \<open>The document model seen by the list-editing plugin\<close>

text \<open>
  The plugin (\<^verbatim>\<open>listediting.js\<close>) reads the host editor's model through a narrow
  interface: a node has attributes (\<^verbatim>\<open>getAttribute\<close>, \<^verbatim>\<open>hasAttribute\<close>), an element
  also has a \<^verbatim>\<open>name\<close>, an \<^verbatim>\<open>isEmpty\<close> flag and a \<^verbatim>\<open>previousSibling\<close>; the selection
  has \<^verbatim>\<open>isCollapsed\<close>, \<^verbatim>\<open>getFirstPosition()\<close> and \<^verbatim>\<open>getLastPosition()\<close>; a position has
  a \<^verbatim>\<open>parent\<close> and \<^verbatim>\<open>isAtStart\<close>.

  The siblings of the block that holds the caret are a list of nodes in document order.
  JavaScript object identity (\<^verbatim>\<open>lastBlockItem === positionParent\<close>) is the index of a
  node in that list: every reference to a node is such an index.
\<close>

datatype attr_value = AStr string | ANum int | ABool bool

type_synonym attributes = "string \<rightharpoonup> attr_value"

datatype node =
    Text attributes
  | Element string attributes bool
    \<comment> \<open>name, attributes, \<^verbatim>\<open>isEmpty\<close> (the element has no children)\<close>

fun is_element :: "node \<Rightarrow> bool" where
  "is_element (Text _) = False"
| "is_element (Element _ _ _) = True"

text \<open>\<^verbatim>\<open>node.name\<close>: a text node has no such property, the read gives \<^verbatim>\<open>undefined\<close>.\<close>

fun node_name :: "node \<Rightarrow> string option" where
  "node_name (Text _) = None"
| "node_name (Element n _ _) = Some n"

fun node_attrs :: "node \<Rightarrow> attributes" where
  "node_attrs (Text a) = a"
| "node_attrs (Element _ a _) = a"

text \<open>\<^verbatim>\<open>element.isEmpty\<close>; on a text node the property is \<^verbatim>\<open>undefined\<close>, which is falsy.\<close>

fun isEmpty :: "node \<Rightarrow> bool" where
  "isEmpty (Text _) = False"
| "isEmpty (Element _ _ e) = e"

text \<open>\<^verbatim>\<open>getAttribute\<close> gives \<^verbatim>\<open>undefined\<close> (here \<open>None\<close>) for a key the node does not
  carry; \<^verbatim>\<open>hasAttribute\<close> tests the presence of the key, whatever its value.\<close>

definition getAttribute :: "node \<Rightarrow> string \<Rightarrow> attr_value option" where
  "getAttribute n key = node_attrs n key"

definition hasAttribute :: "node \<Rightarrow> string \<Rightarrow> bool" where
  "hasAttribute n key = (key \<in> dom (node_attrs n))"

record position =
  parent :: nat  \<comment> \<open>\<^verbatim>\<open>position.parent\<close>: the index of the block that holds the position\<close>
  offset :: nat

definition isAtStart :: "position \<Rightarrow> bool" where
  "isAtStart p = (offset p = 0)"

text \<open>
  The selection is one range. A selection of several ranges is not collapsed, and both
  key handlers leave before they use a position of a selection that is not collapsed.
\<close>

record selection =
  firstPos :: position
  lastPos :: position

definition getFirstPosition :: "selection \<Rightarrow> position" where
  "getFirstPosition s = firstPos s"

definition getLastPosition :: "selection \<Rightarrow> position" where
  "getLastPosition s = lastPos s"

definition isCollapsed :: "selection \<Rightarrow> bool" where
  "isCollapsed s = (firstPos s = lastPos s)"

record model =
  nodes :: "node list"
  sel :: selection

text \<open>\<^verbatim>\<open>element.previousSibling\<close>: \<^verbatim>\<open>null\<close> for the first child.\<close>

definition previousSibling :: "node list \<Rightarrow> nat \<Rightarrow> node option" where
  "previousSibling ns i = (if i = 0 then None else Some (ns ! (i - 1)))"

text \<open>A state the handlers can receive: each position of the selection lies in an
  element that is one of the siblings.\<close>

definition wellFormed :: "model \<Rightarrow> bool" where
  "wellFormed m =
     (parent (firstPos (sel m)) < length (nodes m) \<and>
      parent (lastPos (sel m)) < length (nodes m) \<and>
      is_element (nodes m ! parent (firstPos (sel m))) \<and>
      is_element (nodes m ! parent (lastPos (sel m))))"

section \<open>The list utilities\<close>

datatype error = TypeError

text \<open>
  \<^verbatim>\<open>areRepresentingSameList( blockA, blockB )\<close>: \<^verbatim>\<open>blockB\<close> is tested first; reading an
  attribute of a \<^verbatim>\<open>null\<close> \<^verbatim>\<open>blockA\<close> throws. The comparison is \<^verbatim>\<open>===\<close> on the two
  results of \<^verbatim>\<open>getAttribute\<close>, and \<^verbatim>\<open>undefined === undefined\<close> holds.
\<close>

definition areRepresentingSameList :: "node option \<Rightarrow> node option \<Rightarrow> error + bool" where
  "areRepresentingSameList blockA blockB =
     (case blockB of
        None \<Rightarrow> Inr False
      | Some b \<Rightarrow>
          (case blockA of
             None \<Rightarrow> Inl TypeError
           | Some a \<Rightarrow> Inr (getAttribute a ''listItemId'' = getAttribute b ''listItemId'')))"

definition isListBlock :: "node \<Rightarrow> bool" where
  "isListBlock element = hasAttribute element ''listItemId''"

datatype direction = Forward | Backward

text \<open>
  Modelled from the spec: \<^verbatim>\<open>TreeWalker\<close> (\<^verbatim>\<open>ckeditor5/src/engine\<close>) is not among the
  sources. The spec (4.1) describes its use here as two one-directional scans, backward
  and forward, over the immediate siblings starting at the position inside the block
  \<open>P\<close>, shallow, whose results concatenated as reverse(backward) + forward are in
  document order and include \<open>P\<close> itself. So the backward walk leaves \<open>P\<close> through its
  start, giving \<open>P\<close> first and then the siblings before it, nearest first; the forward
  walk gives the siblings after \<open>P\<close>, nearest first. The items are node references
  (indices).
\<close>

fun TreeWalker :: "node list \<Rightarrow> position \<Rightarrow> direction \<Rightarrow> nat list" where
  "TreeWalker ns startPosition Backward = rev [0..<Suc (parent startPosition)]"
| "TreeWalker ns startPosition Forward = [Suc (parent startPosition)..<length ns]"

text \<open>
  The inner function \<^verbatim>\<open>getSimilarListItem( direction )\<close> of
  \<^verbatim>\<open>findListBlocksInListItem\<close>, with the variables it closes over as arguments: the
  whole walk is filtered, first to elements, then to the nodes whose \<^verbatim>\<open>listItemId\<close> is
  \<^verbatim>\<open>===\<close> to that of the position's parent.
\<close>

definition getSimilarListItem ::
    "node list \<Rightarrow> position \<Rightarrow> attr_value option \<Rightarrow> direction \<Rightarrow> nat list" where
  "getSimilarListItem ns position listItemId dir =
     filter (\<lambda>element. getAttribute (ns ! element) ''listItemId'' = listItemId)
       (filter (\<lambda>item. is_element (ns ! item)) (TreeWalker ns position dir))"

definition findListBlocksInListItem :: "node list \<Rightarrow> position \<Rightarrow> nat list" where
  "findListBlocksInListItem ns position =
     (let listItemId = getAttribute (ns ! parent position) ''listItemId''
      in rev (getSimilarListItem ns position listItemId Backward)
         @ getSimilarListItem ns position listItemId Forward)"

section \<open>The key handlers\<close>

text \<open>
  A handler's effects are the model operations it requests, in order, and the two calls
  on the event (\<^verbatim>\<open>data.preventDefault()\<close>, \<^verbatim>\<open>evt.stop()\<close>).
\<close>

datatype command = IndentList | OutdentList
  \<comment> \<open>\<^verbatim>\<open>'indentList'\<close> and \<^verbatim>\<open>'outdentList'\<close>, registered in \<^verbatim>\<open>init()\<close>\<close>

datatype action =
    SetAttribute string attr_value nat  \<comment> \<open>\<^verbatim>\<open>writer.setAttribute( key, value, item )\<close>\<close>
  | Execute command                     \<comment> \<open>\<^verbatim>\<open>editor.execute( name )\<close>\<close>

record outcome =
  actions :: "action list"
  defaultPrevented :: bool
  stopped :: bool

definition unhandled :: outcome where
  "unhandled = \<lparr>actions = [], defaultPrevented = False, stopped = False\<rparr>"

text \<open>\<^verbatim>\<open>allBlockItems[ allBlockItems.length - 1 ]\<close>: \<^verbatim>\<open>undefined\<close> on an empty array.\<close>

definition lastBlockItem :: "nat list \<Rightarrow> nat option" where
  "lastBlockItem allBlockItems = (if allBlockItems = [] then None else Some (last allBlockItems))"

text \<open>
  The callback returned by \<^verbatim>\<open>getEnterHandlingCallback( editor )\<close>. The first argument is
  the string that \<^verbatim>\<open>listUtils._getElementUniqueId()\<close> (that is \<^verbatim>\<open>uid()\<close>, not among the
  sources) returns when it is called.
\<close>

definition getEnterHandlingCallback :: "string \<Rightarrow> model \<Rightarrow> error + outcome" where
  "getEnterHandlingCallback uid m =
     (let position = getLastPosition (sel m);
          positionParent = parent position
      in if \<not> isCollapsed (sel m) then Inr unhandled
         else if \<not> isEmpty (nodes m ! positionParent) then Inr unhandled
         else if \<not> isListBlock (nodes m ! positionParent) then Inr unhandled
         else
           let allBlockItems = findListBlocksInListItem (nodes m) position
           in case areRepresentingSameList (Some (nodes m ! positionParent))
                     (previousSibling (nodes m) positionParent) of
                Inl e \<Rightarrow> Inl e
              | Inr sameList \<Rightarrow>
                  let (acts, applied) =
                        (if sameList \<and> lastBlockItem allBlockItems = Some positionParent
                         then ([SetAttribute ''listItemId'' (AStr uid) positionParent], True)
                         else if length allBlockItems = 1
                         then ([Execute OutdentList], True)
                         else ([], False))
                  in Inr \<lparr>actions = acts, defaultPrevented = applied, stopped = applied\<rparr>)"

text \<open>The callback returned by \<^verbatim>\<open>getDeleteHandlingCallback( editor )\<close>; the first
  argument is \<^verbatim>\<open>data.direction\<close>, which is \<^verbatim>\<open>'forward'\<close> or \<^verbatim>\<open>'backward'\<close>.\<close>

definition getDeleteHandlingCallback :: "direction \<Rightarrow> model \<Rightarrow> outcome" where
  "getDeleteHandlingCallback dir m =
     (if dir \<noteq> Backward then unhandled
      else if \<not> isCollapsed (sel m) then unhandled
      else
        let firstPosition = getFirstPosition (sel m)
        in if \<not> isAtStart firstPosition then unhandled
           else
             let positionParent = parent firstPosition
             in if node_name (nodes m ! positionParent) \<noteq> Some ''listItem'' then unhandled
                else
                  let previousIsAListItem =
                        (case previousSibling (nodes m) positionParent of
                           None \<Rightarrow> False
                         | Some p \<Rightarrow> node_name p = Some ''listItem'')
                  in if previousIsAListItem then unhandled
                     else \<lparr>actions = [Execute OutdentList],
                           defaultPrevented = True, stopped = True\<rparr>)"

section \<open>The model operations the handlers request\<close>

text \<open>
  Modelled from the spec: the host model's attribute set and removal
  (\<^verbatim>\<open>writer.setAttribute\<close>, \<^verbatim>\<open>writer.removeAttribute\<close> of the engine, not among the
  sources): one key of one node changes.
\<close>

fun setAttribute :: "string \<Rightarrow> attr_value \<Rightarrow> node \<Rightarrow> node" where
  "setAttribute key v (Text a) = Text (a(key \<mapsto> v))"
| "setAttribute key v (Element n a e) = Element n (a(key \<mapsto> v)) e"

fun removeAttribute :: "string \<Rightarrow> node \<Rightarrow> node" where
  "removeAttribute key (Text a) = Text (a(key := None))"
| "removeAttribute key (Element n a e) = Element n (a(key := None)) e"

definition listIndent :: "node \<Rightarrow> int option" where
  "listIndent b = (case getAttribute b ''listIndent'' of Some (ANum n) \<Rightarrow> Some n | _ \<Rightarrow> None)"

text \<open>
  Modelled from the spec: the indent command (\<^verbatim>\<open>./indentcommand\<close>, not among the
  sources), as section 4.3 of the spec words it. The command works on the block of the
  selection (for the collapsed selections of the key handlers, the block of the caret).
  It is not enabled, and changes nothing, when that block is not a list block.
  Forward: \<^verbatim>\<open>listIndent\<close> grows by one, subject to the maximum of the previous sibling's
  indent + 1; an attempt beyond the cap changes nothing. Backward: \<^verbatim>\<open>listIndent\<close> falls
  by one; if the result would go below zero the block loses \<^verbatim>\<open>listItemId\<close>,
  \<^verbatim>\<open>listIndent\<close> and \<^verbatim>\<open>listType\<close> instead.
  The result is \<open>None\<close> where the spec fixes none: a list block without a \<^verbatim>\<open>listIndent\<close>,
  and a forward indent with no previous sibling or with one that has no \<^verbatim>\<open>listIndent\<close>.
  The spec's two policy-dependent parts (indenting the following blocks of the same item,
  and recomputing the identity of the block) have no stated rule and are left out.
\<close>

definition changeIndent :: "direction \<Rightarrow> model \<Rightarrow> model option" where
  "changeIndent dir m =
     (let i = parent (getFirstPosition (sel m)); b = nodes m ! i
      in if \<not> isListBlock b then Some m
         else
           case listIndent b of
             None \<Rightarrow> None
           | Some n \<Rightarrow>
               (case dir of
                  Forward \<Rightarrow>
                    (case previousSibling (nodes m) i of
                       None \<Rightarrow> None
                     | Some p \<Rightarrow>
                         (case listIndent p of
                            None \<Rightarrow> None
                          | Some k \<Rightarrow>
                              if n + 1 \<le> k + 1
                              then Some (m\<lparr>nodes := (nodes m)
                                     [i := setAttribute ''listIndent'' (ANum (n + 1)) b]\<rparr>)
                              else Some m))
                | Backward \<Rightarrow>
                    if n - 1 < 0
                    then Some (m\<lparr>nodes := (nodes m)
                           [i := removeAttribute ''listType''
                                   (removeAttribute ''listIndent''
                                     (removeAttribute ''listItemId'' b))]\<rparr>)
                    else Some (m\<lparr>nodes := (nodes m)
                           [i := setAttribute ''listIndent'' (ANum (n - 1)) b]\<rparr>)))"

text \<open>\<^verbatim>\<open>init()\<close> registers \<^verbatim>\<open>'indentList'\<close> as the forward and \<^verbatim>\<open>'outdentList'\<close> as the
  backward indent command.\<close>

fun execute :: "command \<Rightarrow> model \<Rightarrow> model option" where
  "execute IndentList m = changeIndent Forward m"
| "execute OutdentList m = changeIndent Backward m"

fun applyAction :: "action \<Rightarrow> model \<Rightarrow> model option" where
  "applyAction (SetAttribute key v item) m =
     Some (m\<lparr>nodes := (nodes m)[item := setAttribute key v (nodes m ! item)]\<rparr>)"
| "applyAction (Execute c) m = execute c m"

fun applyActions :: "action list \<Rightarrow> model \<Rightarrow> model option" where
  "applyActions [] m = Some m"
| "applyActions (a # as) m =
     (case applyAction a m of None \<Rightarrow> None | Some m' \<Rightarrow> applyActions as m')"

section \<open>The spec's wording of the same operations\<close>

text \<open>
  The definitions named \<open>spec_...\<close> follow the words of the spec, not the code; the
  theorems compare them with the code above. The others name a condition that a theorem
  states: membership in the item of a block, contiguity, the rows of the Enter handler
  over the document, the guards the handlers compute.
\<close>

text \<open>Spec 4.2: \<^verbatim>\<open>isListBlock\<close> is true iff the block carries a non-empty \<^verbatim>\<open>listItemId\<close>.\<close>

definition spec_isListBlock :: "node \<Rightarrow> bool" where
  "spec_isListBlock b =
     (case getAttribute b ''listItemId'' of
        None \<Rightarrow> False
      | Some v \<Rightarrow> v \<noteq> AStr [])"

text \<open>Spec 4.2: \<^verbatim>\<open>sameList\<close> is false if either block is null/undefined or lacks a
  \<^verbatim>\<open>listItemId\<close>; otherwise true iff their \<^verbatim>\<open>listItemId\<close>s are equal.\<close>

definition spec_sameList :: "node option \<Rightarrow> node option \<Rightarrow> bool" where
  "spec_sameList blockA blockB =
     (case (blockA, blockB) of
        (Some a, Some b) \<Rightarrow>
          (case (getAttribute a ''listItemId'', getAttribute b ''listItemId'') of
             (Some x, Some y) \<Rightarrow> x = y
           | _ \<Rightarrow> False)
      | _ \<Rightarrow> False)"

text \<open>A sibling belongs to the item of the block \<open>p\<close>: it is a block and its
  \<^verbatim>\<open>listItemId\<close> is that of \<open>p\<close>.\<close>

definition sameItem :: "node list \<Rightarrow> nat \<Rightarrow> nat \<Rightarrow> bool" where
  "sameItem ns p j =
     (is_element (ns ! j) \<and>
      getAttribute (ns ! j) ''listItemId'' = getAttribute (ns ! p) ''listItemId'')"

text \<open>Spec 4.1: two one-directional scans, each stopping at the first sibling whose
  \<^verbatim>\<open>listItemId\<close> differs (or is absent), concatenated as reverse(backward-run) +
  forward-run.\<close>

definition spec_findItemBlocks :: "node list \<Rightarrow> position \<Rightarrow> nat list" where
  "spec_findItemBlocks ns position =
     rev (takeWhile (sameItem ns (parent position)) (TreeWalker ns position Backward))
     @ takeWhile (sameItem ns (parent position)) (TreeWalker ns position Forward)"

text \<open>Spec 3, the invariant the walker assumes, for the item of block \<open>p\<close>: the blocks
  sharing its \<^verbatim>\<open>listItemId\<close> are contiguous in sibling order, none of another identity
  lies between two of them.\<close>

definition contiguousItem :: "node list \<Rightarrow> nat \<Rightarrow> bool" where
  "contiguousItem ns p =
     list_all (\<lambda>j. \<not> sameItem ns p j \<or> list_all (sameItem ns p) [min j p..<Suc (max j p)])
       [0..<length ns]"

text \<open>Spec 4.4, first row of the decision table: selection collapsed; cursor block empty;
  block is a list block; block is the last block of its item and the item shares its list
  with the previous sibling (same \<^verbatim>\<open>listItemId\<close>). The item of the block is what the
  walker of spec 4.1 returns, the two stopping scans.\<close>

definition spec_enterFreshIdentity :: "model \<Rightarrow> bool" where
  "spec_enterFreshIdentity m =
     (let p = parent (getLastPosition (sel m))
      in isCollapsed (sel m) \<and> isEmpty (nodes m ! p) \<and> isListBlock (nodes m ! p) \<and>
         lastBlockItem (spec_findItemBlocks (nodes m) (getLastPosition (sel m))) = Some p \<and>
         (case previousSibling (nodes m) p of
            None \<Rightarrow> False
          | Some prev \<Rightarrow>
              getAttribute prev ''listItemId'' = getAttribute (nodes m ! p) ''listItemId''))"

text \<open>Spec 4.4, second row: selection collapsed; cursor block empty; block is a list
  block; block is the only block of its item (the walker of spec 4.1 returns a
  singleton).\<close>

definition spec_enterOnlyBlock :: "model \<Rightarrow> bool" where
  "spec_enterOnlyBlock m =
     (let p = parent (getLastPosition (sel m))
      in isCollapsed (sel m) \<and> isEmpty (nodes m ! p) \<and> isListBlock (nodes m ! p) \<and>
         length (spec_findItemBlocks (nodes m) (getLastPosition (sel m))) = 1)"

text \<open>The same two rows stated over the document, without any walker: no sibling block
  after (before) the block \<open>p\<close> carries the \<^verbatim>\<open>listItemId\<close> of \<open>p\<close>.\<close>

definition noLaterOfIdentity :: "node list \<Rightarrow> nat \<Rightarrow> bool" where
  "noLaterOfIdentity ns p = list_all (\<lambda>j. \<not> sameItem ns p j) [Suc p..<length ns]"

definition noEarlierOfIdentity :: "node list \<Rightarrow> nat \<Rightarrow> bool" where
  "noEarlierOfIdentity ns p = list_all (\<lambda>j. \<not> sameItem ns p j) [0..<p]"

definition enterFreshIdentity :: "model \<Rightarrow> bool" where
  "enterFreshIdentity m =
     (let p = parent (getLastPosition (sel m))
      in isCollapsed (sel m) \<and> isEmpty (nodes m ! p) \<and> isListBlock (nodes m ! p) \<and>
         noLaterOfIdentity (nodes m) p \<and>
         (case previousSibling (nodes m) p of
            None \<Rightarrow> False
          | Some prev \<Rightarrow>
              getAttribute prev ''listItemId'' = getAttribute (nodes m ! p) ''listItemId''))"

definition enterOnlyBlock :: "model \<Rightarrow> bool" where
  "enterOnlyBlock m =
     (let p = parent (getLastPosition (sel m))
      in isCollapsed (sel m) \<and> isEmpty (nodes m ! p) \<and> isListBlock (nodes m ! p) \<and>
         noEarlierOfIdentity (nodes m) p \<and> noLaterOfIdentity (nodes m) p)"

text \<open>The guards of the two branches of the Enter handler as the handler computes them,
  from the result of \<^verbatim>\<open>findListBlocksInListItem\<close>.\<close>

definition enterFreshGuard :: "model \<Rightarrow> bool" where
  "enterFreshGuard m =
     (let p = parent (getLastPosition (sel m))
      in isCollapsed (sel m) \<and> isEmpty (nodes m ! p) \<and> isListBlock (nodes m ! p) \<and>
         lastBlockItem (findListBlocksInListItem (nodes m) (getLastPosition (sel m))) = Some p \<and>
         (case previousSibling (nodes m) p of
            None \<Rightarrow> False
          | Some prev \<Rightarrow>
              getAttribute prev ''listItemId'' = getAttribute (nodes m ! p) ''listItemId''))"

definition enterOnlyGuard :: "model \<Rightarrow> bool" where
  "enterOnlyGuard m =
     (let p = parent (getLastPosition (sel m))
      in isCollapsed (sel m) \<and> isEmpty (nodes m ! p) \<and> isListBlock (nodes m ! p) \<and>
         length (findListBlocksInListItem (nodes m) (getLastPosition (sel m))) = 1)"

text \<open>Spec 4.4, the Backspace row: direction backward; selection collapsed; caret at the
  absolute start of a list block; the block is the first list item in the document (no
  preceding list-block sibling). A list block is a block carrying a \<^verbatim>\<open>listItemId\<close>
  (glossary).\<close>

definition spec_backspaceOutdents :: "direction \<Rightarrow> model \<Rightarrow> bool" where
  "spec_backspaceOutdents dir m =
     (let p = parent (getFirstPosition (sel m))
      in dir = Backward \<and> isCollapsed (sel m) \<and> isAtStart (getFirstPosition (sel m)) \<and>
         isListBlock (nodes m ! p) \<and>
         list_all (\<lambda>j. \<not> isListBlock (nodes m ! j)) [0..<p])"

text \<open>What the Backspace handler tests instead: the element names of the block and of its
  immediately preceding sibling.\<close>

definition deleteOutdents :: "direction \<Rightarrow> model \<Rightarrow> bool" where
  "deleteOutdents dir m =
     (let p = parent (getFirstPosition (sel m))
      in dir = Backward \<and> isCollapsed (sel m) \<and> isAtStart (getFirstPosition (sel m)) \<and>
         node_name (nodes m ! p) = Some ''listItem'' \<and>
         (case previousSibling (nodes m) p of
            None \<Rightarrow> True
          | Some prev \<Rightarrow> node_name prev \<noteq> Some ''listItem''))"

section \<open>Example documents\<close>

text \<open>A block of a list item: an element with \<^verbatim>\<open>listItemId\<close>, \<^verbatim>\<open>listIndent\<close> and
  \<^verbatim>\<open>listType\<close>.\<close>

definition listBlock :: "string \<Rightarrow> string \<Rightarrow> int \<Rightarrow> bool \<Rightarrow> node" where
  "listBlock name ident indent e =
     Element name
       [''listItemId'' \<mapsto> AStr ident, ''listIndent'' \<mapsto> ANum indent,
        ''listType'' \<mapsto> AStr ''bulleted'']
       e"

definition plainParagraph :: node where
  "plainParagraph = Element ''paragraph'' Map.empty False"

definition caretAt :: "nat \<Rightarrow> nat \<Rightarrow> selection" where
  "caretAt p off =
     \<lparr>firstPos = \<lparr>parent = p, offset = off\<rparr>, lastPos = \<lparr>parent = p, offset = off\<rparr>\<rparr>"


definition singleEmptyItem :: model where
  "singleEmptyItem = \<lparr>nodes = [listBlock ''paragraph'' ''A'' 0 True], sel = caretAt 0 0\<rparr>"

definition paragraphItemAtStart :: model where
  "paragraphItemAtStart =
     \<lparr>nodes = [listBlock ''paragraph'' ''A'' 0 False], sel = caretAt 0 0\<rparr>"

definition listItemAtStart :: model where
  "listItemAtStart =
     \<lparr>nodes = [Element ''listItem''
                 [''listIndent'' \<mapsto> ANum 0, ''listType'' \<mapsto> AStr ''bulleted''] False],
      sel = caretAt 0 0\<rparr>"

definition listItemAfterListItem :: model where
  "listItemAfterListItem =
     \<lparr>nodes = [Element ''listItem'' Map.empty False, Element ''listItem'' Map.empty False],
      sel = caretAt 1 0\<rparr>"

definition nestedCandidate :: model where
  "nestedCandidate =
     \<lparr>nodes = [listBlock ''paragraph'' ''A'' 1 False, listBlock ''paragraph'' ''B'' 1 False],
      sel = caretAt 1 0\<rparr>"

definition interleavedItem :: "node list" where
  "interleavedItem =
     [listBlock ''paragraph'' ''A'' 0 False, listBlock ''paragraph'' ''B'' 0 False,
      listBlock ''paragraph'' ''A'' 0 True]"

definition threeBlockItem :: "node list" where
  "threeBlockItem =
     [plainParagraph, listBlock ''paragraph'' ''A'' 0 False, listBlock ''paragraph'' ''A'' 0 False,
      listBlock ''paragraph'' ''A'' 0 True, listBlock ''paragraph'' ''B'' 0 False]"

definition listItemWithIds :: model where
  "listItemWithIds =
     \<lparr>nodes = [listBlock ''listItem'' ''A'' 0 False], sel = caretAt 0 0\<rparr>"

definition freshCandidate :: model where
  "freshCandidate =
     \<lparr>nodes = [listBlock ''paragraph'' ''B'' 0 False, listBlock ''paragraph'' ''A'' 0 False,
               listBlock ''paragraph'' ''A'' 0 True, listBlock ''paragraph'' ''C'' 0 False],
      sel = caretAt 2 0\<rparr>"

definition splitItemCaret :: model where
  "splitItemCaret =
     \<lparr>nodes = [listBlock ''paragraph'' ''A'' 0 False, listBlock ''paragraph'' ''A'' 0 True,
               listBlock ''paragraph'' ''B'' 0 False, listBlock ''paragraph'' ''A'' 0 False],
      sel = caretAt 1 0\<rparr>"

definition onlyCandidate :: model where
  "onlyCandidate =
     \<lparr>nodes = [listBlock ''paragraph'' ''B'' 0 False, listBlock ''paragraph'' ''A'' 0 True,
               listBlock ''paragraph'' ''C'' 0 False],
      sel = caretAt 1 0\<rparr>"

definition interleavedCaret :: model where
  "interleavedCaret = \<lparr>nodes = interleavedItem, sel = caretAt 2 0\<rparr>"

section \<open>Attributes\<close>

lemma setAttribute_get [simp]:
  "getAttribute (setAttribute key v n) k = (if k = key then Some v else getAttribute n k)"
  by (cases n) (simp_all add: getAttribute_def)

lemma removeAttribute_get [simp]:
  "getAttribute (removeAttribute key n) k = (if k = key then None else getAttribute n k)"
  by (cases n) (simp_all add: getAttribute_def)

lemma setAttribute_name [simp]: "node_name (setAttribute key v n) = node_name n"
  by (cases n) simp_all

lemma removeAttribute_name [simp]: "node_name (removeAttribute key n) = node_name n"
  by (cases n) simp_all

lemma setAttribute_isEmpty [simp]: "isEmpty (setAttribute key v n) = isEmpty n"
  by (cases n) simp_all

lemma removeAttribute_isEmpty [simp]: "isEmpty (removeAttribute key n) = isEmpty n"
  by (cases n) simp_all

lemma listIndent_setAttribute [simp]:
  "listIndent (setAttribute ''listIndent'' (ANum n) b) = Some n"
  by (simp add: listIndent_def)

lemma isListBlock_get: "isListBlock b = (getAttribute b ''listItemId'' \<noteq> None)"
  by (auto simp: isListBlock_def hasAttribute_def getAttribute_def)

section \<open>The list identity resolver\<close>

text \<open>
  Claim C6, as the code has it: \<^verbatim>\<open>isListBlock\<close> is true if and only if the block carries
  a \<^verbatim>\<open>listItemId\<close> attribute, whatever its value. It is false when the attribute is
  absent; it is true when the attribute is present and empty.
\<close>

theorem isListBlock_presence:
  "isListBlock b = (getAttribute b ''listItemId'' \<noteq> None)"
  by (auto simp: isListBlock_def hasAttribute_def getAttribute_def)

text \<open>A block whose \<^verbatim>\<open>listItemId\<close> is the empty string is a list block for the code and
  none for the spec's wording.\<close>

theorem isListBlock_empty_id_counterexample:
  "isListBlock (Element ''paragraph'' [''listItemId'' \<mapsto> AStr []] True)
   \<noteq> spec_isListBlock (Element ''paragraph'' [''listItemId'' \<mapsto> AStr []] True)"
  by (simp add: isListBlock_def hasAttribute_def spec_isListBlock_def getAttribute_def)

text \<open>With a non-null second block, a null first block makes the attribute read throw.\<close>

lemma areRepresentingSameList_null_blockA:
  "areRepresentingSameList None (Some b) = Inl TypeError"
  by (simp add: areRepresentingSameList_def)

text \<open>
  Claim C5, as the code has it: \<^verbatim>\<open>areRepresentingSameList\<close> is false when the second
  block is null; for two blocks it is true if and only if the two results of
  \<^verbatim>\<open>getAttribute( 'listItemId' )\<close> are strictly equal, so for a first block that carries
  a \<^verbatim>\<open>listItemId\<close> (as the only caller guarantees) it agrees with the spec's wording, and
  for two blocks it is symmetric. The function only returns a value.
\<close>

theorem areRepresentingSameList_strict_equality:
  "areRepresentingSameList blockA None = Inr False \<and>
   areRepresentingSameList (Some a) (Some b)
     = Inr (getAttribute a ''listItemId'' = getAttribute b ''listItemId'') \<and>
   areRepresentingSameList (Some a) (Some b) = areRepresentingSameList (Some b) (Some a) \<and>
   (isListBlock a \<longrightarrow>
      areRepresentingSameList (Some a) blockB = Inr (spec_sameList (Some a) blockB))"
  by (auto simp: areRepresentingSameList_def spec_sameList_def isListBlock_get
      split: option.splits)

theorem areRepresentingSameList_strict_equality_witness:
  "isListBlock (listBlock ''paragraph'' ''A'' 0 False) \<and>
   areRepresentingSameList (Some (listBlock ''paragraph'' ''A'' 0 False)) (Some plainParagraph)
     = Inr False \<and>
   areRepresentingSameList (Some (listBlock ''paragraph'' ''A'' 0 False))
     (Some (listBlock ''paragraph'' ''A'' 1 True)) = Inr True"
proof -
  have h: "isListBlock (listBlock ''paragraph'' ''A'' 0 False)"
    by (simp add: isListBlock_get listBlock_def getAttribute_def)
  have "spec_sameList (Some (listBlock ''paragraph'' ''A'' 0 False)) (Some plainParagraph) = False"
    by (simp add: spec_sameList_def listBlock_def plainParagraph_def getAttribute_def)
  moreover have "spec_sameList (Some (listBlock ''paragraph'' ''A'' 0 False))
      (Some (listBlock ''paragraph'' ''A'' 1 True)) = True"
    by (simp add: spec_sameList_def listBlock_def getAttribute_def)
  ultimately show ?thesis
    using h
      areRepresentingSameList_strict_equality
        [of None "listBlock ''paragraph'' ''A'' 0 False" plainParagraph "Some plainParagraph"]
      areRepresentingSameList_strict_equality
        [of None "listBlock ''paragraph'' ''A'' 0 False" plainParagraph
          "Some (listBlock ''paragraph'' ''A'' 1 True)"]
    by simp
qed

text \<open>Two blocks that both lack a \<^verbatim>\<open>listItemId\<close>: the code answers true
  (\<^verbatim>\<open>undefined === undefined\<close>), the spec's wording false.\<close>

theorem areRepresentingSameList_no_id_counterexample:
  "areRepresentingSameList (Some plainParagraph) (Some plainParagraph)
   \<noteq> Inr (spec_sameList (Some plainParagraph) (Some plainParagraph))"
  by (simp add: areRepresentingSameList_def spec_sameList_def plainParagraph_def
      getAttribute_def)

section \<open>The block sequence walker\<close>

lemma filter_eq_takeWhile:
  "(\<And>i j. i < j \<Longrightarrow> j < length xs \<Longrightarrow> P (xs ! j) \<Longrightarrow> P (xs ! i))
   \<Longrightarrow> filter P xs = takeWhile P xs"
proof (induction xs)
  case Nil
  then show ?case by simp
next
  case (Cons x xs)
  show ?case
  proof (cases "P x")
    case True
    have "filter P xs = takeWhile P xs"
    proof (rule Cons.IH)
      fix i j
      assume "i < j" "j < length xs" "P (xs ! j)"
      then show "P (xs ! i)"
        using Cons.prems [of "Suc i" "Suc j"] by simp
    qed
    with True show ?thesis by simp
  next
    case False
    have "\<not> P (xs ! j)" if "j < length xs" for j
      using Cons.prems [of 0 "Suc j"] that False by auto
    then have "filter P xs = []"
      by (auto simp: filter_empty_conv in_set_conv_nth)
    with False show ?thesis by simp
  qed
qed

lemma getSimilarListItem_filter:
  "getSimilarListItem ns pos (getAttribute (ns ! parent pos) ''listItemId'') dir
   = filter (sameItem ns (parent pos)) (TreeWalker ns pos dir)"
  by (auto simp: getSimilarListItem_def sameItem_def intro: filter_cong)

lemma findListBlocksInListItem_filter:
  "findListBlocksInListItem ns pos
   = rev (filter (sameItem ns (parent pos)) (TreeWalker ns pos Backward))
     @ filter (sameItem ns (parent pos)) (TreeWalker ns pos Forward)"
  by (simp add: findListBlocksInListItem_def getSimilarListItem_filter)

lemma findListBlocksInListItem_document_order:
  assumes "parent pos < length ns"
  shows "findListBlocksInListItem ns pos = filter (sameItem ns (parent pos)) [0..<length ns]"
proof -
  have "[0..<length ns] = [0..<Suc (parent pos)] @ [Suc (parent pos)..<length ns]"
    using assms by (metis Suc_leI le0 upt_add_eq_append le_add_diff_inverse)
  then have "filter (sameItem ns (parent pos)) [0..<length ns]
      = filter (sameItem ns (parent pos)) [0..<Suc (parent pos)]
        @ filter (sameItem ns (parent pos)) [Suc (parent pos)..<length ns]"
    by (metis filter_append)
  then show ?thesis
    by (simp add: findListBlocksInListItem_filter rev_filter del: upt_Suc)
qed

lemma contiguousItem_between:
  assumes "contiguousItem ns p" "j < length ns" "sameItem ns p j"
    "min j p \<le> k" "k \<le> max j p"
  shows "sameItem ns p k"
proof -
  from assms(1,2,3) have "list_all (sameItem ns p) [min j p..<Suc (max j p)]"
    by (auto simp: contiguousItem_def list_all_iff)
  with assms(4,5) show ?thesis
    by (auto simp: list_all_iff)
qed

lemma backward_scan:
  assumes "p < length ns" "contiguousItem ns p"
  shows "filter (sameItem ns p) (rev [0..<Suc p]) = takeWhile (sameItem ns p) (rev [0..<Suc p])"
proof (rule filter_eq_takeWhile)
  fix i j
  assume ij: "i < j" "j < length (rev [0..<Suc p])" "sameItem ns p (rev [0..<Suc p] ! j)"
  then have j: "j \<le> p" by simp
  have nj: "rev [0..<Suc p] ! j = p - j"
    using j by (simp add: rev_nth del: upt_Suc)
  have ni: "rev [0..<Suc p] ! i = p - i"
    using j ij(1) by (simp add: rev_nth del: upt_Suc)
  have sj: "sameItem ns p (p - j)"
    using ij(3) by (simp only: nj)
  have "sameItem ns p (p - i)"
    by (rule contiguousItem_between [OF assms(2) _ sj]) (use assms(1) j ij(1) in auto)
  then show "sameItem ns p (rev [0..<Suc p] ! i)"
    by (simp only: ni)
qed

lemma forward_scan:
  assumes "p < length ns" "contiguousItem ns p"
  shows "filter (sameItem ns p) [Suc p..<length ns]
         = takeWhile (sameItem ns p) [Suc p..<length ns]"
proof (rule filter_eq_takeWhile)
  fix i j
  assume ij: "i < j" "j < length [Suc p..<length ns]" "sameItem ns p ([Suc p..<length ns] ! j)"
  then have j: "Suc p + j < length ns" by simp
  have sj: "sameItem ns p (Suc p + j)"
    using ij(3) j by simp
  have "sameItem ns p (Suc p + i)"
    by (rule contiguousItem_between [OF assms(2) j sj]) (use ij(1) in auto)
  then show "sameItem ns p ([Suc p..<length ns] ! i)"
    using ij j by simp
qed

lemma contiguous_scans:
  assumes "parent pos < length ns" and "contiguousItem ns (parent pos)"
  shows "findListBlocksInListItem ns pos = spec_findItemBlocks ns pos"
  using backward_scan [OF assms] forward_scan [OF assms]
  by (simp add: findListBlocksInListItem_filter spec_findItemBlocks_def del: upt_Suc)

text \<open>
  Claim C4, as the code has it: the two scans do not stop at the first sibling of another
  identity, they filter the whole walk. So \<^verbatim>\<open>findListBlocksInListItem\<close> returns, in
  document order, every sibling block whose \<^verbatim>\<open>listItemId\<close> is that of \<open>P\<close>, with \<open>P\<close>
  itself; when the blocks of that identity are contiguous (the invariant the walker
  assumes), this is exactly the result of the two stopping scans, reverse(backward-run) +
  forward-run.
\<close>

theorem findListBlocksInListItem_filters_siblings:
  assumes "parent pos < length ns"
  shows "findListBlocksInListItem ns pos = filter (sameItem ns (parent pos)) [0..<length ns] \<and>
         (is_element (ns ! parent pos) \<longrightarrow> parent pos \<in> set (findListBlocksInListItem ns pos)) \<and>
         (contiguousItem ns (parent pos) \<longrightarrow>
            findListBlocksInListItem ns pos = spec_findItemBlocks ns pos)"
proof -
  have order: "findListBlocksInListItem ns pos = filter (sameItem ns (parent pos)) [0..<length ns]"
    using assms by (rule findListBlocksInListItem_document_order)
  have "parent pos \<in> set (findListBlocksInListItem ns pos)" if "is_element (ns ! parent pos)"
  proof -
    have "sameItem ns (parent pos) (parent pos)"
      using that by (simp add: sameItem_def)
    then have "parent pos \<in> set (filter (sameItem ns (parent pos)) [0..<length ns])"
      using assms by simp
    then show ?thesis by (simp only: order)
  qed
  moreover have "findListBlocksInListItem ns pos = spec_findItemBlocks ns pos"
    if "contiguousItem ns (parent pos)"
    using assms that by (rule contiguous_scans)
  ultimately show ?thesis
    using order by blast
qed

text \<open>An item of three blocks between a plain paragraph and a block of another item: the
  same three blocks, in order, whichever of them holds the caret. Blocks A, B, A with the
  caret in the last: both blocks of identity A.\<close>

theorem findListBlocksInListItem_filters_siblings_witness:
  "contiguousItem threeBlockItem 1 \<and> contiguousItem threeBlockItem 2 \<and>
   contiguousItem threeBlockItem 3 \<and>
   findListBlocksInListItem threeBlockItem \<lparr>parent = 1, offset = 0\<rparr> = [1, 2, 3] \<and>
   findListBlocksInListItem threeBlockItem \<lparr>parent = 2, offset = 0\<rparr> = [1, 2, 3] \<and>
   findListBlocksInListItem threeBlockItem \<lparr>parent = 3, offset = 0\<rparr> = [1, 2, 3] \<and>
   spec_findItemBlocks threeBlockItem \<lparr>parent = 1, offset = 0\<rparr> = [1, 2, 3] \<and>
   spec_findItemBlocks threeBlockItem \<lparr>parent = 2, offset = 0\<rparr> = [1, 2, 3] \<and>
   spec_findItemBlocks threeBlockItem \<lparr>parent = 3, offset = 0\<rparr> = [1, 2, 3] \<and>
   is_element (interleavedItem ! 2) \<and>
   findListBlocksInListItem interleavedItem \<lparr>parent = 2, offset = 0\<rparr> = [0, 2] \<and>
   2 \<in> set (findListBlocksInListItem interleavedItem \<lparr>parent = 2, offset = 0\<rparr>)"
proof -
  have c: "contiguousItem threeBlockItem 1" "contiguousItem threeBlockItem 2"
    "contiguousItem threeBlockItem 3"
    by code_simp+
  have l: "length threeBlockItem = 5"
    by code_simp
  have f: "filter (sameItem threeBlockItem 1) [0..<5] = [1, 2, 3]"
    "filter (sameItem threeBlockItem 2) [0..<5] = [1, 2, 3]"
    "filter (sameItem threeBlockItem 3) [0..<5] = [1, 2, 3]"
    by code_simp+
  have r1: "findListBlocksInListItem threeBlockItem \<lparr>parent = 1, offset = 0\<rparr> = [1, 2, 3] \<and>
      spec_findItemBlocks threeBlockItem \<lparr>parent = 1, offset = 0\<rparr> = [1, 2, 3]"
    using findListBlocksInListItem_filters_siblings [of "\<lparr>parent = 1, offset = 0\<rparr>" threeBlockItem]
      c(1) l f(1) by auto
  have r2: "findListBlocksInListItem threeBlockItem \<lparr>parent = 2, offset = 0\<rparr> = [1, 2, 3] \<and>
      spec_findItemBlocks threeBlockItem \<lparr>parent = 2, offset = 0\<rparr> = [1, 2, 3]"
    using findListBlocksInListItem_filters_siblings [of "\<lparr>parent = 2, offset = 0\<rparr>" threeBlockItem]
      c(2) l f(2) by auto
  have r3: "findListBlocksInListItem threeBlockItem \<lparr>parent = 3, offset = 0\<rparr> = [1, 2, 3] \<and>
      spec_findItemBlocks threeBlockItem \<lparr>parent = 3, offset = 0\<rparr> = [1, 2, 3]"
    using findListBlocksInListItem_filters_siblings [of "\<lparr>parent = 3, offset = 0\<rparr>" threeBlockItem]
      c(3) l f(3) by auto
  have li: "length interleavedItem = 3" by code_simp
  have e: "is_element (interleavedItem ! 2)" by code_simp
  have fi: "filter (sameItem interleavedItem 2) [0..<3] = [0, 2]" by code_simp
  have r4: "findListBlocksInListItem interleavedItem \<lparr>parent = 2, offset = 0\<rparr> = [0, 2] \<and>
      2 \<in> set (findListBlocksInListItem interleavedItem \<lparr>parent = 2, offset = 0\<rparr>)"
    using findListBlocksInListItem_filters_siblings [of "\<lparr>parent = 2, offset = 0\<rparr>" interleavedItem]
      li e fi by auto
  from c r1 r2 r3 r4 e show ?thesis by blast
qed

text \<open>Blocks A, B, A with the caret in the last one: the code returns both blocks of
  identity A, the stopping scans only the last.\<close>

theorem findListBlocksInListItem_interleaved_counterexample:
  "findListBlocksInListItem interleavedItem \<lparr>parent = 2, offset = 0\<rparr>
   \<noteq> spec_findItemBlocks interleavedItem \<lparr>parent = 2, offset = 0\<rparr>"
proof -
  have "findListBlocksInListItem interleavedItem \<lparr>parent = 2, offset = 0\<rparr> = [0, 2]"
    by code_simp
  moreover have "spec_findItemBlocks interleavedItem \<lparr>parent = 2, offset = 0\<rparr> = [2]"
    by code_simp
  ultimately show ?thesis by simp
qed

section \<open>The Enter handler\<close>

lemma enter_outcome:
  "getEnterHandlingCallback uid m =
     Inr (if enterFreshGuard m
          then \<lparr>actions = [SetAttribute ''listItemId'' (AStr uid)
                              (parent (getLastPosition (sel m)))],
                defaultPrevented = True, stopped = True\<rparr>
          else if enterOnlyGuard m
          then \<lparr>actions = [Execute OutdentList], defaultPrevented = True, stopped = True\<rparr>
          else unhandled)"
  by (simp add: getEnterHandlingCallback_def enterFreshGuard_def enterOnlyGuard_def
      areRepresentingSameList_def unhandled_def Let_def split: option.splits)

lemma enter_never_raises: "\<exists>out. getEnterHandlingCallback uid m = Inr out"
  by (simp add: enter_outcome)


lemma outdent_at_zero:
  assumes "isListBlock (nodes m ! parent (getFirstPosition (sel m)))"
    and "listIndent (nodes m ! parent (getFirstPosition (sel m))) = Some 0"
  shows "changeIndent Backward m =
     Some (m\<lparr>nodes := (nodes m)[parent (getFirstPosition (sel m)) :=
             removeAttribute ''listType'' (removeAttribute ''listIndent''
               (removeAttribute ''listItemId'' (nodes m ! parent (getFirstPosition (sel m)))))]\<rparr>)"
  using assms by (simp add: changeIndent_def Let_def)

lemma findListBlocksInListItem_around:
  assumes "parent pos < length ns" and "is_element (ns ! parent pos)"
  shows "findListBlocksInListItem ns pos
         = filter (sameItem ns (parent pos)) [0..<parent pos]
           @ parent pos # filter (sameItem ns (parent pos)) [Suc (parent pos)..<length ns]"
proof -
  have "sameItem ns (parent pos) (parent pos)"
    using assms(2) by (simp add: sameItem_def)
  then show ?thesis
    by (simp add: findListBlocksInListItem_filter rev_filter)
qed

lemma filter_none: "(filter P xs = []) = list_all (\<lambda>x. \<not> P x) xs"
  by (simp add: filter_empty_conv list_all_iff)

lemma lastBlockItem_is_caret:
  assumes "parent pos < length ns" and "is_element (ns ! parent pos)"
  shows "(lastBlockItem (findListBlocksInListItem ns pos) = Some (parent pos))
         = noLaterOfIdentity ns (parent pos)"
proof (cases "filter (sameItem ns (parent pos)) [Suc (parent pos)..<length ns] = []")
  case True
  then show ?thesis
    using True by (simp add: findListBlocksInListItem_around [OF assms] lastBlockItem_def
        noLaterOfIdentity_def filter_none [symmetric])
next
  case False
  let ?ys = "filter (sameItem ns (parent pos)) [Suc (parent pos)..<length ns]"
  have "last ?ys \<in> set ?ys"
    using False by (rule last_in_set)
  then have "last ?ys \<noteq> parent pos"
    by auto
  then show ?thesis
    using False by (simp add: findListBlocksInListItem_around [OF assms] lastBlockItem_def
        noLaterOfIdentity_def filter_none [symmetric])
qed

lemma singleton_is_caret:
  assumes "parent pos < length ns" and "is_element (ns ! parent pos)"
  shows "(length (findListBlocksInListItem ns pos) = 1)
         = (noEarlierOfIdentity ns (parent pos) \<and> noLaterOfIdentity ns (parent pos))"
  by (simp add: findListBlocksInListItem_around [OF assms] noEarlierOfIdentity_def
      noLaterOfIdentity_def filter_none [symmetric])

lemma wellFormed_caret:
  assumes "wellFormed m"
  shows "parent (getLastPosition (sel m)) < length (nodes m)"
    and "is_element (nodes m ! parent (getLastPosition (sel m)))"
  using assms by (simp_all add: wellFormed_def getLastPosition_def)

lemma enterFreshGuard_document:
  assumes "wellFormed m"
  shows "enterFreshGuard m = enterFreshIdentity m"
  using lastBlockItem_is_caret [OF wellFormed_caret [OF assms]]
  by (simp add: enterFreshGuard_def enterFreshIdentity_def Let_def)

lemma enterOnlyGuard_document:
  assumes "wellFormed m"
  shows "enterOnlyGuard m = enterOnlyBlock m"
  using singleton_is_caret [OF wellFormed_caret [OF assms]]
  by (simp add: enterOnlyGuard_def enterOnlyBlock_def Let_def)

lemma spec_enter_contiguous:
  assumes "wellFormed m"
    and "contiguousItem (nodes m) (parent (getLastPosition (sel m)))"
  shows "spec_enterFreshIdentity m = enterFreshIdentity m"
    and "spec_enterOnlyBlock m = enterOnlyBlock m"
proof -
  have scans: "spec_findItemBlocks (nodes m) (getLastPosition (sel m))
      = findListBlocksInListItem (nodes m) (getLastPosition (sel m))"
    using contiguous_scans [OF wellFormed_caret(1) [OF assms(1)] assms(2)] by simp
  have "spec_enterFreshIdentity m = enterFreshGuard m"
    by (simp add: spec_enterFreshIdentity_def enterFreshGuard_def scans)
  then show "spec_enterFreshIdentity m = enterFreshIdentity m"
    by (simp add: enterFreshGuard_document [OF assms(1)])
  have "spec_enterOnlyBlock m = enterOnlyGuard m"
    by (simp add: spec_enterOnlyBlock_def enterOnlyGuard_def scans)
  then show "spec_enterOnlyBlock m = enterOnlyBlock m"
    by (simp add: enterOnlyGuard_document [OF assms(1)])
qed

lemma enter_outcome_document:
  assumes "wellFormed m"
  shows "getEnterHandlingCallback uid m =
     Inr (if enterFreshIdentity m
          then \<lparr>actions = [SetAttribute ''listItemId'' (AStr uid)
                              (parent (getLastPosition (sel m)))],
                defaultPrevented = True, stopped = True\<rparr>
          else if enterOnlyBlock m
          then \<lparr>actions = [Execute OutdentList], defaultPrevented = True, stopped = True\<rparr>
          else unhandled)"
  by (simp add: enter_outcome enterFreshGuard_document [OF assms]
      enterOnlyGuard_document [OF assms])

text \<open>
  Claim C1, as the code has it: on Enter in a well-formed state, the handler sets the
  \<^verbatim>\<open>listItemId\<close> of the cursor block to the identifier the generator returned exactly
  when the selection is collapsed, the cursor block is empty, is a list block, has a
  previous sibling with the same \<^verbatim>\<open>listItemId\<close>, and no sibling block after it carries
  that \<^verbatim>\<open>listItemId\<close>; in every other state it writes no attribute. When the blocks of
  that identity are contiguous, this condition is the spec's: the cursor block is the
  last block of its item.
\<close>

theorem enter_fresh_identity_branch:
  assumes "wellFormed m"
  shows "(\<exists>out. getEnterHandlingCallback uid m = Inr out \<and>
            (if enterFreshIdentity m
             then actions out = [SetAttribute ''listItemId'' (AStr uid)
                                   (parent (getLastPosition (sel m)))]
                  \<and> defaultPrevented out \<and> stopped out
             else (\<forall>key v item. SetAttribute key v item \<notin> set (actions out)))) \<and>
         (contiguousItem (nodes m) (parent (getLastPosition (sel m))) \<longrightarrow>
            spec_enterFreshIdentity m = enterFreshIdentity m)"
proof -
  have "\<exists>out. getEnterHandlingCallback uid m = Inr out \<and>
            (if enterFreshIdentity m
             then actions out = [SetAttribute ''listItemId'' (AStr uid)
                                   (parent (getLastPosition (sel m)))]
                  \<and> defaultPrevented out \<and> stopped out
             else (\<forall>key v item. SetAttribute key v item \<notin> set (actions out)))"
    by (auto simp: enter_outcome_document [OF assms] unhandled_def)
  moreover have "spec_enterFreshIdentity m = enterFreshIdentity m"
    if "contiguousItem (nodes m) (parent (getLastPosition (sel m)))"
    using assms that by (rule spec_enter_contiguous(1))
  ultimately show ?thesis by blast
qed

text \<open>Blocks B, A, A, C with the caret in the empty second block of A: the branch fires.
  Blocks A, A, B, A with the caret in the second: a later block carries A, no write.\<close>

theorem enter_fresh_identity_branch_witness:
  "wellFormed freshCandidate \<and> contiguousItem (nodes freshCandidate) 2 \<and>
   enterFreshIdentity freshCandidate \<and> spec_enterFreshIdentity freshCandidate \<and>
   (\<exists>out. getEnterHandlingCallback ''e1'' freshCandidate = Inr out \<and>
      actions out = [SetAttribute ''listItemId'' (AStr ''e1'') 2]) \<and>
   wellFormed splitItemCaret \<and> \<not> enterFreshIdentity splitItemCaret \<and>
   (\<exists>out. getEnterHandlingCallback ''e1'' splitItemCaret = Inr out \<and>
      SetAttribute ''listItemId'' (AStr ''e1'') 1 \<notin> set (actions out))"
proof -
  have w: "wellFormed freshCandidate" by code_simp
  have c: "contiguousItem (nodes freshCandidate) 2" by code_simp
  have h: "enterFreshIdentity freshCandidate" by code_simp
  have p: "parent (getLastPosition (sel freshCandidate)) = 2" by code_simp
  have w': "wellFormed splitItemCaret" by code_simp
  have h': "\<not> enterFreshIdentity splitItemCaret" by code_simp
  have 1: "spec_enterFreshIdentity freshCandidate \<and>
      (\<exists>out. getEnterHandlingCallback ''e1'' freshCandidate = Inr out \<and>
         actions out = [SetAttribute ''listItemId'' (AStr ''e1'') 2])"
    using enter_fresh_identity_branch [OF w, of "''e1''"] c h p by auto
  have 2: "\<exists>out. getEnterHandlingCallback ''e1'' splitItemCaret = Inr out \<and>
      SetAttribute ''listItemId'' (AStr ''e1'') 1 \<notin> set (actions out)"
    using enter_fresh_identity_branch [OF w', of "''e1''"] h' by auto
  from w c h w' h' 1 2 show ?thesis by blast
qed

text \<open>Blocks A, A, B, A with the caret in the empty second block: by the stopping scans
  the item is the first two blocks, the cursor block is its last block and shares the
  list with its previous sibling, and the handler does nothing.\<close>

theorem enter_fresh_identity_split_counterexample:
  "spec_enterFreshIdentity splitItemCaret \<and>
   getEnterHandlingCallback ''e1'' splitItemCaret = Inr unhandled"
proof -
  have "spec_enterFreshIdentity splitItemCaret" by code_simp
  moreover have "\<not> enterFreshGuard splitItemCaret" by code_simp
  moreover have "\<not> enterOnlyGuard splitItemCaret" by code_simp
  ultimately show ?thesis by (simp add: enter_outcome)
qed
text \<open>
  Claim C2, as the code has it: on Enter in a well-formed state, when the selection is
  collapsed, the cursor block is empty, is a list block and is the only sibling block
  that carries its \<^verbatim>\<open>listItemId\<close>, and the fresh-identity branch does not apply, the
  handler executes the outdent command (and nothing else); on a block at indent 0 the
  outdent command removes \<^verbatim>\<open>listItemId\<close>, \<^verbatim>\<open>listIndent\<close> and \<^verbatim>\<open>listType\<close> from that
  block and changes nothing else, leaving a plain block. When the blocks of that identity
  are contiguous, the condition is the spec's: the cursor block is the only block of its
  item.
\<close>

theorem enter_only_block_outdents:
  assumes "wellFormed m" and "p = parent (getLastPosition (sel m))"
  shows "(enterOnlyBlock m \<and> \<not> enterFreshIdentity m \<longrightarrow>
            getEnterHandlingCallback uid m =
              Inr \<lparr>actions = [Execute OutdentList], defaultPrevented = True, stopped = True\<rparr> \<and>
            (listIndent (nodes m ! p) = Some 0 \<longrightarrow>
               (\<exists>m'. applyActions [Execute OutdentList] m = Some m' \<and>
                  getAttribute (nodes m' ! p) ''listItemId'' = None \<and>
                  getAttribute (nodes m' ! p) ''listIndent'' = None \<and>
                  getAttribute (nodes m' ! p) ''listType'' = None \<and>
                  \<not> isListBlock (nodes m' ! p) \<and>
                  node_name (nodes m' ! p) = node_name (nodes m ! p) \<and>
                  length (nodes m') = length (nodes m) \<and>
                  (\<forall>j. j \<noteq> p \<longrightarrow> nodes m' ! j = nodes m ! j) \<and>
                  sel m' = sel m))) \<and>
         (contiguousItem (nodes m) p \<longrightarrow>
            spec_enterOnlyBlock m = enterOnlyBlock m \<and>
            spec_enterFreshIdentity m = enterFreshIdentity m)"
proof -
  have bound: "p < length (nodes m)"
    using wellFormed_caret(1) [OF assms(1)] assms(2) by simp
  have handler: "getEnterHandlingCallback uid m =
           Inr \<lparr>actions = [Execute OutdentList], defaultPrevented = True, stopped = True\<rparr>"
    if "enterOnlyBlock m" "\<not> enterFreshIdentity m"
    using that by (simp add: enter_outcome_document [OF assms(1)])
  have effect: "\<exists>m'. applyActions [Execute OutdentList] m = Some m' \<and>
               getAttribute (nodes m' ! p) ''listItemId'' = None \<and>
               getAttribute (nodes m' ! p) ''listIndent'' = None \<and>
               getAttribute (nodes m' ! p) ''listType'' = None \<and>
               \<not> isListBlock (nodes m' ! p) \<and>
               node_name (nodes m' ! p) = node_name (nodes m ! p) \<and>
               length (nodes m') = length (nodes m) \<and>
               (\<forall>j. j \<noteq> p \<longrightarrow> nodes m' ! j = nodes m ! j) \<and>
               sel m' = sel m"
    if only: "enterOnlyBlock m" and zero: "listIndent (nodes m ! p) = Some 0"
  proof -
    have collapsed: "isCollapsed (sel m)" and list: "isListBlock (nodes m ! p)"
      using only assms(2) by (simp_all add: enterOnlyBlock_def Let_def)
    then have first: "parent (getFirstPosition (sel m)) = p"
      using assms(2) by (simp add: isCollapsed_def getFirstPosition_def getLastPosition_def)
    show ?thesis
      using outdent_at_zero [of m] first list zero bound
      by (simp add: isListBlock_get)
  qed
  have spec: "spec_enterOnlyBlock m = enterOnlyBlock m \<and>
      spec_enterFreshIdentity m = enterFreshIdentity m"
    if "contiguousItem (nodes m) p"
    using spec_enter_contiguous [OF assms(1)] that assms(2) by simp
  from handler effect spec show ?thesis by blast
qed

text \<open>Blocks B, A, C with the caret in the empty block A at indent 0; and scenario 2 of the
  spec, a single list item of one empty block, id A, indent 0.\<close>

theorem enter_only_block_outdents_witness:
  "wellFormed onlyCandidate \<and> contiguousItem (nodes onlyCandidate) 1 \<and>
   enterOnlyBlock onlyCandidate \<and> spec_enterOnlyBlock onlyCandidate \<and>
   \<not> enterFreshIdentity onlyCandidate \<and>
   listIndent (nodes onlyCandidate ! 1) = Some 0 \<and>
   getEnterHandlingCallback ''e1'' onlyCandidate =
     Inr \<lparr>actions = [Execute OutdentList], defaultPrevented = True, stopped = True\<rparr> \<and>
   (\<exists>m'. applyActions [Execute OutdentList] onlyCandidate = Some m' \<and>
      getAttribute (nodes m' ! 1) ''listItemId'' = None \<and>
      node_name (nodes m' ! 1) = Some ''paragraph'' \<and>
      nodes m' ! 0 = nodes onlyCandidate ! 0 \<and> nodes m' ! 2 = nodes onlyCandidate ! 2) \<and>
   wellFormed singleEmptyItem \<and> enterOnlyBlock singleEmptyItem \<and>
   getEnterHandlingCallback ''e1'' singleEmptyItem =
     Inr \<lparr>actions = [Execute OutdentList], defaultPrevented = True, stopped = True\<rparr> \<and>
   (\<exists>m'. applyActions [Execute OutdentList] singleEmptyItem = Some m' \<and>
      getAttribute (nodes m' ! 0) ''listItemId'' = None)"
proof -
  have w: "wellFormed onlyCandidate" by code_simp
  have p: "1 = parent (getLastPosition (sel onlyCandidate))" by code_simp
  have c: "contiguousItem (nodes onlyCandidate) 1" by code_simp
  have a: "enterOnlyBlock onlyCandidate" by code_simp
  have b: "\<not> enterFreshIdentity onlyCandidate" by code_simp
  have e: "listIndent (nodes onlyCandidate ! 1) = Some 0" by code_simp
  have f: "node_name (nodes onlyCandidate ! 1) = Some ''paragraph''" by code_simp
  have 1: "spec_enterOnlyBlock onlyCandidate \<and>
      getEnterHandlingCallback ''e1'' onlyCandidate =
        Inr \<lparr>actions = [Execute OutdentList], defaultPrevented = True, stopped = True\<rparr> \<and>
      (\<exists>m'. applyActions [Execute OutdentList] onlyCandidate = Some m' \<and>
         getAttribute (nodes m' ! 1) ''listItemId'' = None \<and>
         node_name (nodes m' ! 1) = Some ''paragraph'' \<and>
         nodes m' ! 0 = nodes onlyCandidate ! 0 \<and> nodes m' ! 2 = nodes onlyCandidate ! 2)"
    using enter_only_block_outdents [OF w p, of "''e1''"] c a b e f by auto
  have w': "wellFormed singleEmptyItem" by code_simp
  have p': "0 = parent (getLastPosition (sel singleEmptyItem))" by code_simp
  have a': "enterOnlyBlock singleEmptyItem" by code_simp
  have b': "\<not> enterFreshIdentity singleEmptyItem" by code_simp
  have e': "listIndent (nodes singleEmptyItem ! 0) = Some 0" by code_simp
  have 2: "getEnterHandlingCallback ''e1'' singleEmptyItem =
        Inr \<lparr>actions = [Execute OutdentList], defaultPrevented = True, stopped = True\<rparr> \<and>
      (\<exists>m'. applyActions [Execute OutdentList] singleEmptyItem = Some m' \<and>
         getAttribute (nodes m' ! 0) ''listItemId'' = None)"
    using enter_only_block_outdents [OF w' p', of "''e1''"] a' b' e' by auto
  from w c a b e w' a' 1 2 show ?thesis by blast
qed

text \<open>Blocks A, B, A with the caret in the empty last block: by the stopping scans the
  cursor block is the only block of its item, the fresh-identity branch does not apply,
  and the handler does nothing.\<close>

theorem enter_only_block_interleaved_counterexample:
  "spec_enterOnlyBlock interleavedCaret \<and> \<not> spec_enterFreshIdentity interleavedCaret \<and>
   getEnterHandlingCallback ''e1'' interleavedCaret = Inr unhandled"
proof -
  have "spec_enterOnlyBlock interleavedCaret" by code_simp
  moreover have "\<not> spec_enterFreshIdentity interleavedCaret" by code_simp
  moreover have "\<not> enterFreshGuard interleavedCaret" by code_simp
  moreover have "\<not> enterOnlyGuard interleavedCaret" by code_simp
  ultimately show ?thesis by (simp add: enter_outcome)
qed




section \<open>The Backspace handler\<close>

lemma delete_outcome:
  "getDeleteHandlingCallback dir m =
     (if deleteOutdents dir m
      then \<lparr>actions = [Execute OutdentList], defaultPrevented = True, stopped = True\<rparr>
      else unhandled)"
  by (simp add: getDeleteHandlingCallback_def deleteOutdents_def Let_def split: option.splits)

text \<open>
  Claim C3, as the code has it: on Backspace the handler executes the outdent command
  exactly when the direction is backward, the selection is collapsed, the caret is at
  offset 0 of an element named \<^verbatim>\<open>listItem\<close>, and the immediately preceding sibling is
  absent or is not named \<^verbatim>\<open>listItem\<close>; in every other state it does nothing.
\<close>

theorem delete_outdents_by_name:
  "getDeleteHandlingCallback dir m =
     (if deleteOutdents dir m
      then \<lparr>actions = [Execute OutdentList], defaultPrevented = True, stopped = True\<rparr>
      else \<lparr>actions = [], defaultPrevented = False, stopped = False\<rparr>)"
  by (simp add: getDeleteHandlingCallback_def deleteOutdents_def unhandled_def Let_def
      split: option.splits)

theorem delete_outdents_by_name_witness:
  "deleteOutdents Backward listItemAtStart \<and>
   getDeleteHandlingCallback Backward listItemAtStart =
     \<lparr>actions = [Execute OutdentList], defaultPrevented = True, stopped = True\<rparr> \<and>
   \<not> deleteOutdents Backward listItemAfterListItem \<and>
   getDeleteHandlingCallback Backward listItemAfterListItem =
     \<lparr>actions = [], defaultPrevented = False, stopped = False\<rparr>"
proof -
  have a: "deleteOutdents Backward listItemAtStart" by code_simp
  have b: "\<not> deleteOutdents Backward listItemAfterListItem" by code_simp
  from a b delete_outdents_by_name [of Backward listItemAtStart]
    delete_outdents_by_name [of Backward listItemAfterListItem]
  show ?thesis by simp
qed

text \<open>A paragraph that carries a \<^verbatim>\<open>listItemId\<close> and opens the document, the caret at its
  start: the spec's precondition holds and the handler does nothing.\<close>

theorem delete_list_block_counterexample:
  "spec_backspaceOutdents Backward paragraphItemAtStart \<and>
   actions (getDeleteHandlingCallback Backward paragraphItemAtStart) = []"
proof -
  have "spec_backspaceOutdents Backward paragraphItemAtStart" by code_simp
  moreover have "\<not> deleteOutdents Backward paragraphItemAtStart" by code_simp
  ultimately show ?thesis by (simp add: delete_outcome unhandled_def)
qed

lemma deleteOutdents_names:
  assumes "parent (getFirstPosition (sel m)) < length (nodes m)"
    and "map node_name (nodes m') = map node_name (nodes m)"
    and "sel m' = sel m"
  shows "deleteOutdents dir m' = deleteOutdents dir m"
proof -
  let ?p = "parent (getFirstPosition (sel m))"
  have len: "length (nodes m') = length (nodes m)"
    using assms(2) by (metis length_map)
  have nth: "node_name (nodes m' ! j) = node_name (nodes m ! j)" if "j < length (nodes m)" for j
    using that len assms(2) by (metis nth_map)
  have "node_name (nodes m' ! ?p) = node_name (nodes m ! ?p)"
    using nth assms(1) by simp
  moreover have "node_name (nodes m' ! (?p - 1)) = node_name (nodes m ! (?p - 1))"
    using nth [of "?p - 1"] assms(1) by simp
  ultimately show ?thesis
    using assms(3) by (simp add: deleteOutdents_def previousSibling_def Let_def)
qed

text \<open>
  Claim C10: the Backspace handler decides by element names only. Two states with the
  same selection whose nodes have the same names, whatever their attributes, get the same
  outcome; a cursor block whose name is not \<^verbatim>\<open>listItem\<close> (also one that carries a
  \<^verbatim>\<open>listItemId\<close>) is never outdented; and a previous sibling named \<^verbatim>\<open>listItem\<close> blocks
  the outdent whatever its attributes.
\<close>

theorem delete_decides_by_element_name:
  "(parent (getFirstPosition (sel m)) < length (nodes m) \<and>
    map node_name (nodes m') = map node_name (nodes m) \<and> sel m' = sel m \<longrightarrow>
      getDeleteHandlingCallback dir m' = getDeleteHandlingCallback dir m) \<and>
   (node_name (nodes m ! parent (getFirstPosition (sel m))) \<noteq> Some ''listItem'' \<longrightarrow>
      getDeleteHandlingCallback dir m = unhandled) \<and>
   (previousSibling (nodes m) (parent (getFirstPosition (sel m))) = Some prev \<and>
    node_name prev = Some ''listItem'' \<longrightarrow>
      getDeleteHandlingCallback dir m = unhandled)"
proof -
  have "getDeleteHandlingCallback dir m' = getDeleteHandlingCallback dir m"
    if "parent (getFirstPosition (sel m)) < length (nodes m)"
      "map node_name (nodes m') = map node_name (nodes m)" "sel m' = sel m"
    using deleteOutdents_names [OF that] by (simp add: delete_outcome)
  moreover have "getDeleteHandlingCallback dir m = unhandled"
    if "node_name (nodes m ! parent (getFirstPosition (sel m))) \<noteq> Some ''listItem''"
    using that by (simp add: delete_outcome deleteOutdents_def Let_def)
  moreover have "getDeleteHandlingCallback dir m = unhandled"
    if "previousSibling (nodes m) (parent (getFirstPosition (sel m))) = Some prev"
      "node_name prev = Some ''listItem''"
    using that by (simp add: delete_outcome deleteOutdents_def Let_def)
  ultimately show ?thesis by blast
qed

theorem delete_decides_by_element_name_witness:
  "map node_name (nodes listItemWithIds) = map node_name (nodes listItemAtStart) \<and>
   sel listItemWithIds = sel listItemAtStart \<and>
   getDeleteHandlingCallback Backward listItemWithIds
     = getDeleteHandlingCallback Backward listItemAtStart \<and>
   isListBlock (nodes paragraphItemAtStart ! 0) \<and>
   node_name (nodes paragraphItemAtStart ! 0) = Some ''paragraph'' \<and>
   getDeleteHandlingCallback Backward paragraphItemAtStart = unhandled \<and>
   previousSibling (nodes listItemAfterListItem) 1 = Some (Element ''listItem'' Map.empty False) \<and>
   getDeleteHandlingCallback Backward listItemAfterListItem = unhandled"
proof -
  have a: "parent (getFirstPosition (sel listItemAtStart)) < length (nodes listItemAtStart)"
    by code_simp
  have b: "map node_name (nodes listItemWithIds) = map node_name (nodes listItemAtStart)"
    by code_simp
  have c: "sel listItemWithIds = sel listItemAtStart"
    by code_simp
  have d: "isListBlock (nodes paragraphItemAtStart ! 0)"
    "node_name (nodes paragraphItemAtStart ! 0) = Some ''paragraph''"
    "parent (getFirstPosition (sel paragraphItemAtStart)) = 0"
    by code_simp+
  have e: "previousSibling (nodes listItemAfterListItem) 1 = Some (Element ''listItem'' Map.empty False)"
    "parent (getFirstPosition (sel listItemAfterListItem)) = 1"
    by (simp_all add: listItemAfterListItem_def previousSibling_def caretAt_def getFirstPosition_def)
  from a b c delete_decides_by_element_name [of listItemAtStart listItemWithIds Backward]
  have 1: "getDeleteHandlingCallback Backward listItemWithIds
     = getDeleteHandlingCallback Backward listItemAtStart" by blast
  from d delete_decides_by_element_name [of paragraphItemAtStart paragraphItemAtStart Backward]
  have 2: "getDeleteHandlingCallback Backward paragraphItemAtStart = unhandled" by simp
  from e delete_decides_by_element_name
    [of listItemAfterListItem listItemAfterListItem Backward "Element ''listItem'' Map.empty False"]
  have 3: "getDeleteHandlingCallback Backward listItemAfterListItem = unhandled" by simp
  from 1 2 3 b c d e show ?thesis by blast
qed

section \<open>Both handlers and the default key action\<close>



section \<open>The indent command\<close>

lemma forward_indent_result:
  assumes "i = parent (getFirstPosition (sel m))"
    and "previousSibling (nodes m) i = Some prev" and "listIndent prev = Some k"
    and "listIndent (nodes m ! i) = Some n"
  shows "changeIndent Forward m =
     Some (if isListBlock (nodes m ! i) \<and> n \<le> k
           then m\<lparr>nodes := (nodes m)[i := setAttribute ''listIndent'' (ANum (n + 1)) (nodes m ! i)]\<rparr>
           else m)"
  using assms by (simp add: changeIndent_def Let_def)

text \<open>
  Claim C9: for a block with a preceding sibling, the forward indent command yields an
  indent that is either the old one or the old one plus one and then at most the previous
  sibling's indent + 1; an attempt that would exceed the cap changes nothing; no other
  block changes.
\<close>

theorem forward_indent_capped:
  assumes "i = parent (getFirstPosition (sel m))" and "i < length (nodes m)"
    and "previousSibling (nodes m) i = Some prev" and "listIndent prev = Some k"
    and "listIndent (nodes m ! i) = Some n"
  shows "\<exists>m' n'. changeIndent Forward m = Some m' \<and>
           listIndent (nodes m' ! i) = Some n' \<and>
           (n' = n \<or> n' = n + 1 \<and> n' \<le> k + 1) \<and>
           (n \<le> k + 1 \<longrightarrow> n' \<le> k + 1) \<and>
           (isListBlock (nodes m ! i) \<and> n \<le> k \<longrightarrow> n' = n + 1) \<and>
           (k < n \<longrightarrow> m' = m) \<and>
           (\<forall>j. j \<noteq> i \<longrightarrow> nodes m' ! j = nodes m ! j) \<and>
           previousSibling (nodes m') i = Some prev"
proof (cases "isListBlock (nodes m ! i) \<and> n \<le> k")
  case True
  have "i \<noteq> 0"
    using assms(3) by (auto simp: previousSibling_def split: if_splits)
  then have "previousSibling ((nodes m)[i := b]) i = Some prev" for b
    using assms(3) by (simp add: previousSibling_def)
  with True show ?thesis
    using forward_indent_result [OF assms(1,3,4,5)] assms(2) by simp
next
  case False
  then show ?thesis
    using forward_indent_result [OF assms(1,3,4,5)] assms(3,5) by auto
qed

text \<open>Scenario 4 of the spec: previous sibling at indent 1, block at indent 1; the first
  indent gives 2, the second is capped.\<close>

theorem forward_indent_capped_witness:
  "previousSibling (nodes nestedCandidate) 1 = Some (listBlock ''paragraph'' ''A'' 1 False) \<and>
   listIndent (listBlock ''paragraph'' ''A'' 1 False) = Some 1 \<and>
   listIndent (nodes nestedCandidate ! 1) = Some 1 \<and>
   (\<exists>m'. changeIndent Forward nestedCandidate = Some m' \<and>
      listIndent (nodes m' ! 1) = Some 2 \<and>
      (\<exists>m''. changeIndent Forward m' = Some m'' \<and> listIndent (nodes m'' ! 1) = Some 2))"
proof -
  have a: "1 = parent (getFirstPosition (sel nestedCandidate))" by code_simp
  have b: "1 < length (nodes nestedCandidate)" by code_simp
  have c: "previousSibling (nodes nestedCandidate) 1 = Some (listBlock ''paragraph'' ''A'' 1 False)"
    by (simp add: nestedCandidate_def previousSibling_def)
  have d: "listIndent (listBlock ''paragraph'' ''A'' 1 False) = Some 1" by code_simp
  have e: "listIndent (nodes nestedCandidate ! 1) = Some 1" by code_simp
  have f: "isListBlock (nodes nestedCandidate ! 1)" by code_simp
  from forward_indent_capped [OF a b c d e] f
  obtain m' where m': "changeIndent Forward nestedCandidate = Some m'"
    "listIndent (nodes m' ! 1) = Some 2"
    "\<forall>j. j \<noteq> 1 \<longrightarrow> nodes m' ! j = nodes nestedCandidate ! j"
    "previousSibling (nodes m') 1 = Some (listBlock ''paragraph'' ''A'' 1 False)"
    by auto
  have sel': "sel m' = sel nestedCandidate" and len': "length (nodes m') = length (nodes nestedCandidate)"
    using m'(1) by (auto simp: changeIndent_def Let_def split: if_splits option.splits)
  have a': "1 = parent (getFirstPosition (sel m'))" using a sel' by simp
  have b': "1 < length (nodes m')" using b len' by simp
  from forward_indent_capped [OF a' b' m'(4) d m'(2)]
  obtain m'' where "changeIndent Forward m' = Some m''" "listIndent (nodes m'' ! 1) = Some 2"
    by auto
  with m' c d e show ?thesis by blast
qed

end
